theory Spec2Isabelle
  imports Main
begin

section \<open>Python runtime: errors, indexing, loops\<close>

text \<open>
  The exceptions the alignment code can raise. \<open>IndexError\<close> comes from an
  out-of-range subscript, \<open>ValueError\<close> from \<open>max\<close> of an empty iterable.
\<close>

datatype error = IndexError | ValueError

definition bindE :: "error + 'a \<Rightarrow> ('a \<Rightarrow> error + 'b) \<Rightarrow> error + 'b" where
  "bindE r f = (case r of Inl e \<Rightarrow> Inl e | Inr v \<Rightarrow> f v)"

text \<open>
  Python subscripts: a negative index counts from the end; an index outside
  \<open>-len .. len - 1\<close> raises \<open>IndexError\<close>.
\<close>

definition py_get :: "'a list \<Rightarrow> int \<Rightarrow> error + 'a" where
  "py_get xs i =
     (let n = int (length xs); k = (if i < 0 then n + i else i)
      in if 0 \<le> k \<and> k < n then Inr (xs ! nat k) else Inl IndexError)"

definition py_set :: "'a list \<Rightarrow> int \<Rightarrow> 'a \<Rightarrow> error + 'a list" where
  "py_set xs i v =
     (let n = int (length xs); k = (if i < 0 then n + i else i)
      in if 0 \<le> k \<and> k < n then Inr (xs[nat k := v]) else Inl IndexError)"

text \<open>\<open>dp[i][j]\<close> and \<open>dp[i][j] = v\<close> on a list of lists.\<close>

definition get2 :: "'a list list \<Rightarrow> int \<Rightarrow> int \<Rightarrow> error + 'a" where
  "get2 dp i j = bindE (py_get dp i) (\<lambda>row. py_get row j)"

definition set2 :: "'a list list \<Rightarrow> int \<Rightarrow> int \<Rightarrow> 'a \<Rightarrow> error + 'a list list" where
  "set2 dp i j v =
     bindE (py_get dp i) (\<lambda>row.
     bindE (py_set row j v) (\<lambda>row'.
     py_set dp i row'))"

text \<open>A \<open>for x in xs: body\<close> loop over a state; the first exception ends it.\<close>

fun for_loop :: "'a list \<Rightarrow> ('a \<Rightarrow> 's \<Rightarrow> error + 's) \<Rightarrow> 's \<Rightarrow> error + 's" where
  "for_loop [] body s = Inr s"
| "for_loop (x # xs) body s = bindE (body x s) (for_loop xs body)"

section \<open>Pairwise alignment: \<open>needleman_wunsch\<close>\<close>

text \<open>\<open>dp = [[0] * (n + 1) for _ in range(m + 1)]\<close>\<close>

definition init_dp :: "nat \<Rightarrow> nat \<Rightarrow> int list list" where
  "init_dp m n = replicate (m + 1) (replicate (n + 1) 0)"

text \<open>\<open>for i in range(m + 1): dp[i][0] = i * gap\<close>\<close>

definition init_col :: "int \<Rightarrow> nat \<Rightarrow> int list list \<Rightarrow> error + int list list" where
  "init_col gap m dp = for_loop [0..<m + 1] (\<lambda>i dp. set2 dp (int i) 0 (int i * gap)) dp"

text \<open>\<open>for j in range(n + 1): dp[0][j] = j * gap\<close>\<close>

definition init_row :: "int \<Rightarrow> nat \<Rightarrow> int list list \<Rightarrow> error + int list list" where
  "init_row gap n dp = for_loop [0..<n + 1] (\<lambda>j dp. set2 dp 0 (int j) (int j * gap)) dp"

text \<open>The body of the two nested fill loops, at one cell \<open>(i, j)\<close>.\<close>

definition fill_cell ::
  "string \<Rightarrow> string \<Rightarrow> int \<Rightarrow> int \<Rightarrow> int \<Rightarrow> nat \<Rightarrow> nat \<Rightarrow> int list list \<Rightarrow> error + int list list" where
  "fill_cell seq1 seq2 match mismatch gap i j dp =
     bindE (py_get seq1 (int i - 1)) (\<lambda>a.
     bindE (py_get seq2 (int j - 1)) (\<lambda>b.
       let match_score = (if a = b then match else mismatch) in
       bindE (get2 dp (int i - 1) (int j - 1)) (\<lambda>d.
       bindE (get2 dp (int i - 1) (int j)) (\<lambda>u.
       bindE (get2 dp (int i) (int j - 1)) (\<lambda>l.
         set2 dp (int i) (int j) (max (d + match_score) (max (u + gap) (l + gap))))))))"

definition fill_dp ::
  "string \<Rightarrow> string \<Rightarrow> int \<Rightarrow> int \<Rightarrow> int \<Rightarrow> int list list \<Rightarrow> error + int list list" where
  "fill_dp seq1 seq2 match mismatch gap dp =
     for_loop [1..<length seq1 + 1] (\<lambda>i.
       for_loop [1..<length seq2 + 1] (\<lambda>j.
         fill_cell seq1 seq2 match mismatch gap i j)) dp"

text \<open>The matrix as it stands when the traceback starts.\<close>

definition nw_matrix :: "string \<Rightarrow> string \<Rightarrow> int \<Rightarrow> int \<Rightarrow> int \<Rightarrow> error + int list list" where
  "nw_matrix seq1 seq2 match mismatch gap =
     bindE (init_col gap (length seq1) (init_dp (length seq1) (length seq2))) (\<lambda>dp.
     bindE (init_row gap (length seq2) dp) (\<lambda>dp.
     fill_dp seq1 seq2 match mismatch gap dp))"

text \<open>
  The traceback loop. Its state is \<open>(i, j, aligned_seq1, aligned_seq2)\<close>; \<open>i\<close> and
  \<open>j\<close> are Python integers, so a subscript \<open>j - 1\<close> with \<open>j = 0\<close> would read
  from the end of the string. The two tests are evaluated left to right
  with \<open>and\<close> short-circuiting, so a subscript behind a failed guard is never
  evaluated.
\<close>

type_synonym tb_state = "int \<times> int \<times> string \<times> string"

definition diag_cond ::
  "string \<Rightarrow> string \<Rightarrow> int \<Rightarrow> int \<Rightarrow> int list list \<Rightarrow> int \<Rightarrow> int \<Rightarrow> error + bool" where
  "diag_cond seq1 seq2 match mismatch dp i j =
     (if i > 0 \<and> j > 0 then
        bindE (get2 dp i j) (\<lambda>cur.
        bindE (get2 dp (i - 1) (j - 1)) (\<lambda>d.
        bindE (py_get seq1 (i - 1)) (\<lambda>a.
        bindE (py_get seq2 (j - 1)) (\<lambda>b.
          Inr (cur = d + (if a = b then match else mismatch))))))
      else Inr False)"

definition up_cond :: "int \<Rightarrow> int list list \<Rightarrow> int \<Rightarrow> int \<Rightarrow> error + bool" where
  "up_cond gap dp i j =
     (if i > 0 then
        bindE (get2 dp i j) (\<lambda>cur.
        bindE (get2 dp (i - 1) j) (\<lambda>u.
          Inr (cur = u + gap)))
      else Inr False)"

definition tb_step ::
  "string \<Rightarrow> string \<Rightarrow> int \<Rightarrow> int \<Rightarrow> int \<Rightarrow> int list list \<Rightarrow> tb_state \<Rightarrow> error + tb_state" where
  "tb_step seq1 seq2 match mismatch gap dp st =
     (case st of (i, j, aligned_seq1, aligned_seq2) \<Rightarrow>
        bindE (diag_cond seq1 seq2 match mismatch dp i j) (\<lambda>c1.
          if c1 then
            bindE (py_get seq1 (i - 1)) (\<lambda>a.
            bindE (py_get seq2 (j - 1)) (\<lambda>b.
              Inr (i - 1, j - 1, a # aligned_seq1, b # aligned_seq2)))
          else
            bindE (up_cond gap dp i j) (\<lambda>c2.
              if c2 then
                bindE (py_get seq1 (i - 1)) (\<lambda>a.
                  Inr (i - 1, j, a # aligned_seq1, CHR ''-'' # aligned_seq2))
              else
                bindE (py_get seq2 (j - 1)) (\<lambda>b.
                  Inr (i, j - 1, CHR ''-'' # aligned_seq1, b # aligned_seq2)))))"

text \<open>
  Progress of one step: either \<open>i\<close> drops, or \<open>i\<close> stays and \<open>j\<close> drops; when
  \<open>j\<close> is not positive the read of \<open>dp[i][j]\<close> has bounded it from below.
\<close>

definition tb_measure :: "(int list list \<times> tb_state) \<Rightarrow> nat \<times> nat" where
  "tb_measure p =
     (case p of (dp, i, j, _) \<Rightarrow>
        (nat i, nat (j + 1 + int (length (dp ! nat i)))))"

lemma py_get_Inr_iff:
  "py_get xs i = Inr v \<longleftrightarrow>
     (0 \<le> i \<and> i < int (length xs) \<and> v = xs ! nat i) \<or>
     (i < 0 \<and> - int (length xs) \<le> i \<and> v = xs ! nat (int (length xs) + i))"
  by (auto simp: py_get_def Let_def)

lemma bindE_Inr_iff: "bindE r f = Inr v \<longleftrightarrow> (\<exists>x. r = Inr x \<and> f x = Inr v)"
  by (cases r) (auto simp: bindE_def)

lemma bindE_Inr [simp]: "bindE (Inr x) f = f x"
  by (simp add: bindE_def)

lemma bindE_Inl [simp]: "bindE (Inl e) f = Inl e"
  by (simp add: bindE_def)

lemma tb_step_decreases:
  assumes "tb_step seq1 seq2 match mismatch gap dp (i, j, a1, a2) = Inr (i', j', a1', a2')"
    and "i > 0 \<or> j > 0"
  shows "(tb_measure (dp, i', j', a1', a2'), tb_measure (dp, i, j, a1, a2)) \<in> less_than <*lex*> less_than"
  using assms
  by (auto simp: tb_step_def tb_measure_def bindE_Inr_iff diag_cond_def up_cond_def get2_def
      py_get_Inr_iff split: if_splits)

function traceback ::
  "string \<Rightarrow> string \<Rightarrow> int \<Rightarrow> int \<Rightarrow> int \<Rightarrow> int list list \<Rightarrow> tb_state \<Rightarrow> error + string \<times> string" where
  "traceback seq1 seq2 match mismatch gap dp (i, j, aligned_seq1, aligned_seq2) =
     (if i > 0 \<or> j > 0 then
        (case tb_step seq1 seq2 match mismatch gap dp (i, j, aligned_seq1, aligned_seq2) of
           Inl e \<Rightarrow> Inl e
         | Inr st \<Rightarrow> traceback seq1 seq2 match mismatch gap dp st)
      else Inr (aligned_seq1, aligned_seq2))"
  by pat_completeness auto
termination
proof (relation "inv_image (less_than <*lex*> less_than)
    (\<lambda>(seq1, seq2, match, mismatch, gap, dp, st). tb_measure (dp, st))")
  show "wf (inv_image (less_than <*lex*> less_than)
    (\<lambda>(seq1, seq2, match, mismatch, gap, dp, st). tb_measure (dp, st)))"
    by (intro wf_inv_image wf_lex_prod wf_less_than)
next
  fix seq1 seq2 :: string and match mismatch gap :: int and dp :: "int list list"
    and i j :: int and aligned_seq1 aligned_seq2 :: string and st :: tb_state
  assume c: "0 < i \<or> 0 < j"
    and s: "tb_step seq1 seq2 match mismatch gap dp (i, j, aligned_seq1, aligned_seq2) = Inr st"
  obtain i' j' a1' a2' where st: "st = (i', j', a1', a2')"
    by (cases st) auto
  from tb_step_decreases [OF s [unfolded st] c]
  show "((seq1, seq2, match, mismatch, gap, dp, st),
         (seq1, seq2, match, mismatch, gap, dp, i, j, aligned_seq1, aligned_seq2))
        \<in> inv_image (less_than <*lex*> less_than)
            (\<lambda>(seq1, seq2, match, mismatch, gap, dp, st). tb_measure (dp, st))"
    by (simp add: st)
qed

definition needleman_wunsch ::
  "string \<Rightarrow> string \<Rightarrow> int \<Rightarrow> int \<Rightarrow> int \<Rightarrow> error + int \<times> string \<times> string" where
  "needleman_wunsch seq1 seq2 match mismatch gap =
     bindE (nw_matrix seq1 seq2 match mismatch gap) (\<lambda>dp.
     bindE (traceback seq1 seq2 match mismatch gap dp
              (int (length seq1), int (length seq2), [], [])) (\<lambda>(aligned_seq1, aligned_seq2).
     bindE (get2 dp (int (length seq1)) (int (length seq2))) (\<lambda>score.
       Inr (score, aligned_seq1, aligned_seq2))))"

section \<open>Progressive multiple alignment: \<open>msa\<close>\<close>

text \<open>
  \<open>propagate_gaps_to_msa(msa, aligned_seq, seq_index)\<close>. The slice expression
  \<open>msa[j][:i] + "-" + msa[j][i:]\<close> is \<open>insert_gap\<close>: a slice bound beyond the end
  of the string is clamped, so the gap is then appended. \<open>insert_gap_rows\<close> is
  the inner loop over \<open>range(len(msa))\<close>, the outer loop runs over
  \<open>enumerate(aligned_seq)\<close>, and the final assignment \<open>msa[seq_index] =
  aligned_seq\<close> is a subscript store, which can raise \<open>IndexError\<close>.
\<close>

definition insert_gap :: "nat \<Rightarrow> string \<Rightarrow> string" where
  "insert_gap i row = take i row @ ''-'' @ drop i row"

definition insert_gap_rows :: "nat \<Rightarrow> int \<Rightarrow> string list \<Rightarrow> error + string list" where
  "insert_gap_rows i seq_index msa =
     for_loop [0..<length msa] (\<lambda>j msa.
       if int j \<noteq> seq_index then
         bindE (py_get msa (int j)) (\<lambda>row. py_set msa (int j) (insert_gap i row))
       else Inr msa) msa"

definition propagate_gaps_to_msa :: "string list \<Rightarrow> string \<Rightarrow> int \<Rightarrow> error + string list" where
  "propagate_gaps_to_msa msa aligned_seq seq_index =
     bindE (for_loop (enumerate 0 aligned_seq) (\<lambda>(i, char) msa.
              if char = CHR ''-'' then insert_gap_rows i seq_index msa else Inr msa) msa)
       (\<lambda>msa. py_set msa seq_index aligned_seq)"

text \<open>
  \<open>msa(sequences, match, mismatch, gap)\<close>. \<open>msa_step\<close> is the body of the loop
  \<open>for seq in sequences[1:]\<close> and \<open>msa_loop\<close> the block \<open>msa_result\<close> as it stands
  when the loop ends, started from \<open>[sequences[0]]\<close>.
\<close>

definition msa_step :: "int \<Rightarrow> int \<Rightarrow> int \<Rightarrow> string \<Rightarrow> string list \<Rightarrow> error + string list" where
  "msa_step match mismatch gap seq msa_result =
     bindE (py_get msa_result 0) (\<lambda>row0.
     bindE (needleman_wunsch row0 seq match mismatch gap) (\<lambda>(_, aligned_seq1, aligned_seq2).
     bindE (propagate_gaps_to_msa msa_result aligned_seq1 0) (\<lambda>msa_result.
       Inr (msa_result @ [aligned_seq2]))))"

definition msa_loop :: "string list \<Rightarrow> int \<Rightarrow> int \<Rightarrow> int \<Rightarrow> error + string list" where
  "msa_loop sequences match mismatch gap =
     bindE (py_get sequences 0) (\<lambda>first.
       for_loop (drop 1 sequences) (msa_step match mismatch gap) [first])"

text \<open>
  \<open>max(len(seq) for seq in msa_result)\<close> raises \<open>ValueError\<close> on an empty block;
  \<open>seq.ljust(max_length, "-")\<close> pads on the right and leaves a string of that
  length or more as it is; \<open>final_score_of\<close> is the pair of loops that sums the
  score of \<open>needleman_wunsch\<close> over all pairs \<open>i < j\<close> of padded rows.
\<close>

definition py_max :: "nat list \<Rightarrow> error + nat" where
  "py_max xs = (case xs of [] \<Rightarrow> Inl ValueError | x # rest \<Rightarrow> Inr (fold max rest x))"

definition ljust :: "string \<Rightarrow> nat \<Rightarrow> char \<Rightarrow> string" where
  "ljust s width fillchar =
     (if width \<le> length s then s else s @ replicate (width - length s) fillchar)"

definition final_score_of :: "string list \<Rightarrow> int \<Rightarrow> int \<Rightarrow> int \<Rightarrow> error + int" where
  "final_score_of msa_result match mismatch gap =
     for_loop [0..<length msa_result] (\<lambda>i.
       for_loop [i + 1..<length msa_result] (\<lambda>j final_score.
         bindE (py_get msa_result (int i)) (\<lambda>ri.
         bindE (py_get msa_result (int j)) (\<lambda>rj.
         bindE (needleman_wunsch ri rj match mismatch gap) (\<lambda>(score, _, _).
           Inr (final_score + score)))))) 0"

definition msa :: "string list \<Rightarrow> int \<Rightarrow> int \<Rightarrow> int \<Rightarrow> error + int \<times> string list" where
  "msa sequences match mismatch gap =
     bindE (msa_loop sequences match mismatch gap) (\<lambda>msa_result.
     bindE (py_max (map length msa_result)) (\<lambda>max_length.
       let msa_result = map (\<lambda>seq. ljust seq max_length CHR ''-'') msa_result in
       bindE (final_score_of msa_result match mismatch gap) (\<lambda>final_score.
         Inr (final_score, msa_result))))"

section \<open>Alignments, the recurrence and the specification of the loops\<close>

text \<open>
  A global alignment of \<open>A\<close> and \<open>B\<close> is a list of columns. A column pairs a
  symbol of \<open>A\<close> with a symbol of \<open>B\<close> (\<open>Pairing\<close>), or sets a symbol of \<open>A\<close> over a
  gap in the second row (\<open>Gap2\<close>), or sets a gap in the first row over a symbol
  of \<open>B\<close> (\<open>Gap1\<close>); no column is a gap over a gap. The symbols of the first row,
  read in order, are \<open>A\<close>; those of the second row are \<open>B\<close>.
\<close>

datatype column = Pairing char char | Gap2 char | Gap1 char

fun sym1 :: "column \<Rightarrow> string" where
  "sym1 (Pairing a b) = [a]"
| "sym1 (Gap2 a) = [a]"
| "sym1 (Gap1 b) = []"

fun sym2 :: "column \<Rightarrow> string" where
  "sym2 (Pairing a b) = [b]"
| "sym2 (Gap2 a) = []"
| "sym2 (Gap1 b) = [b]"

definition is_alignment :: "column list \<Rightarrow> string \<Rightarrow> string \<Rightarrow> bool" where
  "is_alignment al A B \<longleftrightarrow> concat (map sym1 al) = A \<and> concat (map sym2 al) = B"

text \<open>
  The score of an alignment: \<open>match\<close> or \<open>mismatch\<close> for a pairing, \<open>gap\<close> once for
  every gap column.
\<close>

fun col_score :: "int \<Rightarrow> int \<Rightarrow> int \<Rightarrow> column \<Rightarrow> int" where
  "col_score match mismatch gap (Pairing a b) = (if a = b then match else mismatch)"
| "col_score match mismatch gap (Gap2 a) = gap"
| "col_score match mismatch gap (Gap1 b) = gap"

definition score :: "int \<Rightarrow> int \<Rightarrow> int \<Rightarrow> column list \<Rightarrow> int" where
  "score match mismatch gap al = sum_list (map (col_score match mismatch gap) al)"

text \<open>The two rows of an alignment as strings, gaps written \<open>-\<close>.\<close>

fun render1 :: "column \<Rightarrow> char" where
  "render1 (Pairing a b) = a"
| "render1 (Gap2 a) = a"
| "render1 (Gap1 b) = CHR ''-''"

fun render2 :: "column \<Rightarrow> char" where
  "render2 (Pairing a b) = b"
| "render2 (Gap2 a) = CHR ''-''"
| "render2 (Gap1 b) = b"

text \<open>Deleting every gap symbol from a row.\<close>

definition degap :: "string \<Rightarrow> string" where
  "degap s = filter (\<lambda>c. c \<noteq> CHR ''-'') s"

text \<open>\<open>v\<close> is the maximum score of a global alignment of \<open>A\<close> and \<open>B\<close>.\<close>

definition max_alignment_score :: "int \<Rightarrow> int \<Rightarrow> int \<Rightarrow> string \<Rightarrow> string \<Rightarrow> int \<Rightarrow> bool" where
  "max_alignment_score match mismatch gap A B v \<longleftrightarrow>
     (\<exists>al. is_alignment al A B \<and> score match mismatch gap al = v) \<and>
     (\<forall>al. is_alignment al A B \<longrightarrow> score match mismatch gap al \<le> v)"

text \<open>An alignment of \<open>B\<close> and \<open>A\<close> read as an alignment of \<open>A\<close> and \<open>B\<close>.\<close>

fun swap_col :: "column \<Rightarrow> column" where
  "swap_col (Pairing a b) = Pairing b a"
| "swap_col (Gap2 a) = Gap1 a"
| "swap_col (Gap1 b) = Gap2 b"

text \<open>
  The recurrence the matrix is filled by, as a function of the cell: the base
  row and column hold the cumulative gap penalty, every other cell the best of
  the diagonal, vertical and horizontal predecessor.
\<close>

fun nw_rec :: "string \<Rightarrow> string \<Rightarrow> int \<Rightarrow> int \<Rightarrow> int \<Rightarrow> nat \<Rightarrow> nat \<Rightarrow> int" where
  "nw_rec A B match mismatch gap 0 j = int j * gap"
| "nw_rec A B match mismatch gap (Suc i) 0 = int (Suc i) * gap"
| "nw_rec A B match mismatch gap (Suc i) (Suc j) =
     max (nw_rec A B match mismatch gap i j + (if A ! i = B ! j then match else mismatch))
       (max (nw_rec A B match mismatch gap i (Suc j) + gap)
            (nw_rec A B match mismatch gap (Suc i) j + gap))"

declare nw_rec.simps(3) [simp del]

text \<open>
  The path the traceback takes from cell \<open>(i, j)\<close> of a matrix that holds the
  recurrence, as an alignment: diagonal first, then vertical, then horizontal.
\<close>

fun tb_path :: "string \<Rightarrow> string \<Rightarrow> int \<Rightarrow> int \<Rightarrow> int \<Rightarrow> nat \<Rightarrow> nat \<Rightarrow> column list" where
  "tb_path A B match mismatch gap 0 0 = []"
| "tb_path A B match mismatch gap (Suc i) 0 = tb_path A B match mismatch gap i 0 @ [Gap2 (A ! i)]"
| "tb_path A B match mismatch gap 0 (Suc j) = tb_path A B match mismatch gap 0 j @ [Gap1 (B ! j)]"
| "tb_path A B match mismatch gap (Suc i) (Suc j) =
     (if nw_rec A B match mismatch gap (Suc i) (Suc j) =
           nw_rec A B match mismatch gap i j + (if A ! i = B ! j then match else mismatch)
      then tb_path A B match mismatch gap i j @ [Pairing (A ! i) (B ! j)]
      else if nw_rec A B match mismatch gap (Suc i) (Suc j) =
           nw_rec A B match mismatch gap i (Suc j) + gap
      then tb_path A B match mismatch gap i (Suc j) @ [Gap2 (A ! i)]
      else tb_path A B match mismatch gap (Suc i) j @ [Gap1 (B ! j)])"

text \<open>
  The states the traceback loop of \<open>needleman_wunsch A B\<close> passes through: the
  initial state \<open>(m, n, "", "")\<close>, and the result of the loop body in a reached
  state in which the loop condition holds.
\<close>

inductive tb_reach :: "string \<Rightarrow> string \<Rightarrow> int \<Rightarrow> int \<Rightarrow> int \<Rightarrow> tb_state \<Rightarrow> bool"
  for A B match mismatch gap where
  start: "tb_reach A B match mismatch gap (int (length A), int (length B), [], [])"
| step: "tb_reach A B match mismatch gap (i, j, a1, a2) \<Longrightarrow> 0 < i \<or> 0 < j \<Longrightarrow>
     nw_matrix A B match mismatch gap = Inr dp \<Longrightarrow>
     tb_step A B match mismatch gap dp (i, j, a1, a2) = Inr st \<Longrightarrow>
     tb_reach A B match mismatch gap st"

text \<open>
  Auxiliary notions for the loop invariants: the shape of the matrix, the
  update of one cell, the cells already filled when the fill loops stand at
  \<open>(i, j)\<close>, and a matrix that holds the recurrence everywhere.
\<close>

definition dims :: "nat \<Rightarrow> nat \<Rightarrow> 'a list list \<Rightarrow> bool" where
  "dims m n dp \<longleftrightarrow> length dp = m + 1 \<and> (\<forall>r\<le>m. length (dp ! r) = n + 1)"

definition upd2 :: "'a list list \<Rightarrow> nat \<Rightarrow> nat \<Rightarrow> 'a \<Rightarrow> 'a list list" where
  "upd2 dp i j v = dp[i := (dp ! i)[j := v]]"

definition filled :: "nat \<Rightarrow> nat \<Rightarrow> nat \<Rightarrow> nat \<Rightarrow> bool" where
  "filled i j r c \<longleftrightarrow> r = 0 \<or> c = 0 \<or> r < i \<or> (r = i \<and> c < j)"

definition fill_inv ::
  "string \<Rightarrow> string \<Rightarrow> int \<Rightarrow> int \<Rightarrow> int \<Rightarrow> nat \<Rightarrow> nat \<Rightarrow> int list list \<Rightarrow> bool" where
  "fill_inv A B match mismatch gap i j dp \<longleftrightarrow>
     dims (length A) (length B) dp \<and>
     (\<forall>r\<le>length A. \<forall>c\<le>length B.
        filled i j r c \<longrightarrow> dp ! r ! c = nw_rec A B match mismatch gap r c)"

definition good_dp :: "string \<Rightarrow> string \<Rightarrow> int \<Rightarrow> int \<Rightarrow> int \<Rightarrow> int list list \<Rightarrow> bool" where
  "good_dp A B match mismatch gap dp \<longleftrightarrow>
     dims (length A) (length B) dp \<and>
     (\<forall>r\<le>length A. \<forall>c\<le>length B. dp ! r ! c = nw_rec A B match mismatch gap r c)"

text \<open>The two tests of the traceback loop, read off the recurrence.\<close>

definition diag_ok :: "string \<Rightarrow> string \<Rightarrow> int \<Rightarrow> int \<Rightarrow> int \<Rightarrow> int \<Rightarrow> int \<Rightarrow> bool" where
  "diag_ok A B match mismatch gap i j \<longleftrightarrow>
     0 < i \<and> 0 < j \<and>
     nw_rec A B match mismatch gap (nat i) (nat j) =
       nw_rec A B match mismatch gap (nat (i - 1)) (nat (j - 1)) +
       (if A ! nat (i - 1) = B ! nat (j - 1) then match else mismatch)"

definition up_ok :: "string \<Rightarrow> string \<Rightarrow> int \<Rightarrow> int \<Rightarrow> int \<Rightarrow> int \<Rightarrow> int \<Rightarrow> bool" where
  "up_ok A B match mismatch gap i j \<longleftrightarrow>
     0 < i \<and>
     nw_rec A B match mismatch gap (nat i) (nat j) =
       nw_rec A B match mismatch gap (nat (i - 1)) (nat j) + gap"

section \<open>The matrix holds the recurrence\<close>

lemma py_get_nat: "i < length xs \<Longrightarrow> py_get xs (int i) = Inr (xs ! i)"
  by (simp add: py_get_def)

lemma py_get_pred: "i < length xs \<Longrightarrow> py_get xs (int (Suc i) - 1) = Inr (xs ! i)"
  by (simp add: py_get_def)

lemma py_set_nat: "i < length xs \<Longrightarrow> py_set xs (int i) v = Inr (xs[i := v])"
  by (simp add: py_set_def)

lemma get2_nat:
  "dims m n dp \<Longrightarrow> i \<le> m \<Longrightarrow> j \<le> n \<Longrightarrow> get2 dp (int i) (int j) = Inr (dp ! i ! j)"
  by (simp add: get2_def dims_def py_get_nat)

lemma set2_nat:
  "dims m n dp \<Longrightarrow> i \<le> m \<Longrightarrow> j \<le> n \<Longrightarrow> set2 dp (int i) (int j) v = Inr (upd2 dp i j v)"
  by (simp add: set2_def dims_def py_get_nat py_set_nat upd2_def)

lemma dims_upd2: "dims m n dp \<Longrightarrow> dims m n (upd2 dp i j v)"
proof -
  assume d: "dims m n dp"
  have "length (upd2 dp i j v ! r) = n + 1" if "r \<le> m" for r
  proof (cases "r = i")
    case True
    with that d show ?thesis by (simp add: dims_def upd2_def)
  next
    case False
    with that d show ?thesis by (simp add: dims_def upd2_def)
  qed
  with d show ?thesis by (simp add: dims_def upd2_def)
qed

lemma nth_upd2:
  "dims m n dp \<Longrightarrow> r \<le> m \<Longrightarrow> i \<le> m \<Longrightarrow>
     upd2 dp i j v ! r ! c = (if r = i then ((dp ! i)[j := v]) ! c else dp ! r ! c)"
  by (auto simp: dims_def upd2_def nth_list_update)

lemma nth_upd2':
  "dims m n dp \<Longrightarrow> r \<le> m \<Longrightarrow> c \<le> n \<Longrightarrow> i \<le> m \<Longrightarrow> j \<le> n \<Longrightarrow>
     upd2 dp i j v ! r ! c = (if r = i \<and> c = j then v else dp ! r ! c)"
  by (auto simp: dims_def upd2_def nth_list_update)

lemma dims_init_dp: "dims m n (init_dp m n)"
  by (simp add: dims_def init_dp_def del: replicate.simps)

lemma for_loop_append:
  "for_loop (xs @ ys) body s = bindE (for_loop xs body s) (for_loop ys body)"
proof (induction xs arbitrary: s)
  case Nil
  show ?case by simp
next
  case (Cons x xs)
  show ?case
    by (cases "body x s") (simp_all add: Cons.IH)
qed

lemma for_loop_upt:
  assumes "a \<le> b" and "P a s"
    and step: "\<And>x t. a \<le> x \<Longrightarrow> x < b \<Longrightarrow> P x t \<Longrightarrow> \<exists>t'. body x t = Inr t' \<and> P (Suc x) t'"
  shows "\<exists>s'. for_loop [a..<b] body s = Inr s' \<and> P b s'"
  using assms(1) step
proof (induction b)
  case 0
  with assms(2) show ?case by simp
next
  case (Suc b)
  show ?case
  proof (cases "a = Suc b")
    case True
    with assms(2) show ?thesis by simp
  next
    case False
    with Suc.prems(1) have ab: "a \<le> b" by simp
    have "\<exists>s'. for_loop [a..<b] body s = Inr s' \<and> P b s'"
      using Suc.IH [OF ab] Suc.prems(2) by (meson less_Suc_eq)
    then obtain s' where s': "for_loop [a..<b] body s = Inr s'" "P b s'" by blast
    from Suc.prems(2) [OF ab _ s'(2)] obtain t' where "body b s' = Inr t'" "P (Suc b) t'"
      by auto
    with s' ab show ?thesis
      by (simp add: for_loop_append)
  qed
qed

lemma nw_rec_col0: "nw_rec A B match mismatch gap i 0 = int i * gap"
  by (cases i) simp_all

lemma init_col_ok:
  assumes "dims m n dp"
  shows "\<exists>dp'. init_col gap m dp = Inr dp' \<and> dims m n dp' \<and> (\<forall>r\<le>m. dp' ! r ! 0 = int r * gap)"
proof -
  let ?P = "\<lambda>x d. dims m n d \<and> (\<forall>r<x. d ! r ! 0 = int r * gap)"
  have "\<exists>s'. for_loop [0..<m + 1] (\<lambda>i dp. set2 dp (int i) 0 (int i * gap)) dp = Inr s' \<and> ?P (m + 1) s'"
  proof (rule for_loop_upt)
    show "0 \<le> m + 1" by simp
    show "?P 0 dp" using assms by simp
  next
    fix x t
    assume x: "x < m + 1" and P: "?P x t"
    then have s: "set2 t (int x) 0 (int x * gap) = Inr (upd2 t x 0 (int x * gap))"
      using set2_nat [of m n t x 0] by simp
    have "\<forall>r<Suc x. upd2 t x 0 (int x * gap) ! r ! 0 = int r * gap"
      using P x by (auto simp: nth_upd2' [of m n] less_Suc_eq)
    with s P show "\<exists>t'. set2 t (int x) 0 (int x * gap) = Inr t' \<and> ?P (Suc x) t'"
      by (simp add: dims_upd2)
  qed
  then show ?thesis
    by (auto simp: init_col_def)
qed

lemma init_row_ok:
  assumes "dims m n dp" and "\<forall>r\<le>m. dp ! r ! 0 = int r * gap"
  shows "\<exists>dp'. init_row gap n dp = Inr dp' \<and> dims m n dp' \<and>
           (\<forall>r\<le>m. dp' ! r ! 0 = int r * gap) \<and> (\<forall>c\<le>n. dp' ! 0 ! c = int c * gap)"
proof -
  let ?P = "\<lambda>x d. dims m n d \<and> (\<forall>r\<le>m. d ! r ! 0 = int r * gap) \<and> (\<forall>c<x. d ! 0 ! c = int c * gap)"
  have "\<exists>s'. for_loop [0..<n + 1] (\<lambda>j dp. set2 dp 0 (int j) (int j * gap)) dp = Inr s' \<and> ?P (n + 1) s'"
  proof (rule for_loop_upt)
    show "0 \<le> n + 1" by simp
    show "?P 0 dp" using assms by simp
  next
    fix x t
    assume x: "x < n + 1" and P: "?P x t"
    then have s: "set2 t 0 (int x) (int x * gap) = Inr (upd2 t 0 x (int x * gap))"
      using set2_nat [of m n t 0 x] by simp
    have a: "\<forall>r\<le>m. upd2 t 0 x (int x * gap) ! r ! 0 = int r * gap"
      using P x by (auto simp: nth_upd2' [of m n])
    have b: "\<forall>c<Suc x. upd2 t 0 x (int x * gap) ! 0 ! c = int c * gap"
      using P x by (auto simp: nth_upd2' [of m n] less_Suc_eq)
    from s P a b show "\<exists>t'. set2 t 0 (int x) (int x * gap) = Inr t' \<and> ?P (Suc x) t'"
      by (simp add: dims_upd2)
  qed
  then show ?thesis
    by (auto simp: init_row_def)
qed

lemma fill_cell_ok:
  assumes inv: "fill_inv A B match mismatch gap (Suc i) (Suc j) dp"
    and i: "i < length A" and j: "j < length B"
  shows "\<exists>dp'. fill_cell A B match mismatch gap (Suc i) (Suc j) dp = Inr dp' \<and>
           fill_inv A B match mismatch gap (Suc i) (Suc (Suc j)) dp'"
proof -
  let ?m = "length A" and ?n = "length B"
  let ?D = "nw_rec A B match mismatch gap"
  from inv have d: "dims ?m ?n dp"
    by (simp add: fill_inv_def)
  from inv have v: "\<And>r c. r \<le> ?m \<Longrightarrow> c \<le> ?n \<Longrightarrow> filled (Suc i) (Suc j) r c \<Longrightarrow> dp ! r ! c = ?D r c"
    by (simp add: fill_inv_def)
  have g1: "get2 dp (int (Suc i) - 1) (int (Suc j) - 1) = Inr (?D i j)"
    using get2_nat [OF d, of i j] v [of i j] i j by (simp add: filled_def)
  have g2: "get2 dp (int (Suc i) - 1) (int (Suc j)) = Inr (?D i (Suc j))"
    using get2_nat [OF d, of i "Suc j"] v [of i "Suc j"] i j by (simp add: filled_def)
  have g3: "get2 dp (int (Suc i)) (int (Suc j) - 1) = Inr (?D (Suc i) j)"
    using get2_nat [OF d, of "Suc i" j] v [of "Suc i" j] i j by (simp add: filled_def)
  have s: "set2 dp (int (Suc i)) (int (Suc j)) x = Inr (upd2 dp (Suc i) (Suc j) x)" for x
    using set2_nat [OF d, of "Suc i" "Suc j"] i j by simp
  have cell: "fill_cell A B match mismatch gap (Suc i) (Suc j) dp =
      Inr (upd2 dp (Suc i) (Suc j) (?D (Suc i) (Suc j)))"
    unfolding fill_cell_def py_get_pred [OF i] py_get_pred [OF j] bindE_Inr Let_def g1 g2 g3 s
    by (simp add: nw_rec.simps(3))
  have "upd2 dp (Suc i) (Suc j) (?D (Suc i) (Suc j)) ! r ! c = ?D r c"
    if "r \<le> ?m" "c \<le> ?n" "filled (Suc i) (Suc (Suc j)) r c" for r c
  proof (cases "r = Suc i \<and> c = Suc j")
    case True
    with that i j show ?thesis
      by (simp add: nth_upd2' [OF d])
  next
    case False
    with that have "filled (Suc i) (Suc j) r c"
      by (auto simp: filled_def)
    with that False i j show ?thesis
      using v [of r c] by (simp add: nth_upd2' [OF d])
  qed
  with cell d show ?thesis
    by (simp add: fill_inv_def dims_upd2)
qed

lemma fill_row_ok:
  assumes inv: "fill_inv A B match mismatch gap (Suc i) 1 dp" and i: "i < length A"
  shows "\<exists>dp'. for_loop [1..<length B + 1] (fill_cell A B match mismatch gap (Suc i)) dp = Inr dp' \<and>
           fill_inv A B match mismatch gap (Suc (Suc i)) 1 dp'"
proof -
  have "\<exists>dp'. for_loop [1..<length B + 1] (fill_cell A B match mismatch gap (Suc i)) dp = Inr dp' \<and>
           fill_inv A B match mismatch gap (Suc i) (length B + 1) dp'"
  proof (rule for_loop_upt [where P = "fill_inv A B match mismatch gap (Suc i)"])
    show "1 \<le> length B + 1" by simp
    show "fill_inv A B match mismatch gap (Suc i) 1 dp" by (rule inv)
  next
    fix x t
    assume x: "1 \<le> x" "x < length B + 1" and t: "fill_inv A B match mismatch gap (Suc i) x t"
    then obtain j where "x = Suc j" "j < length B"
      by (cases x) auto
    with t i show "\<exists>t'. fill_cell A B match mismatch gap (Suc i) x t = Inr t' \<and>
        fill_inv A B match mismatch gap (Suc i) (Suc x) t'"
      using fill_cell_ok [of A B match mismatch gap i j t] by simp
  qed
  then obtain dp' where
    dp': "for_loop [1..<length B + 1] (fill_cell A B match mismatch gap (Suc i)) dp = Inr dp'"
      "fill_inv A B match mismatch gap (Suc i) (length B + 1) dp'"
    by blast
  have "filled (Suc i) (length B + 1) r c" if "c \<le> length B" "filled (Suc (Suc i)) 1 r c" for r c
    using that by (auto simp: filled_def)
  with dp'(2) have "fill_inv A B match mismatch gap (Suc (Suc i)) 1 dp'"
    unfolding fill_inv_def by blast
  with dp'(1) show ?thesis by blast
qed

lemma fill_dp_ok:
  assumes inv: "fill_inv A B match mismatch gap 1 1 dp"
  shows "\<exists>dp'. fill_dp A B match mismatch gap dp = Inr dp' \<and>
           fill_inv A B match mismatch gap (length A + 1) 1 dp'"
  unfolding fill_dp_def
proof (rule for_loop_upt [where P = "\<lambda>x. fill_inv A B match mismatch gap x 1"])
  show "1 \<le> length A + 1" by simp
  show "fill_inv A B match mismatch gap 1 1 dp" by (rule inv)
next
  fix x t
  assume x: "1 \<le> x" "x < length A + 1" and t: "fill_inv A B match mismatch gap x 1 t"
  then obtain i where "x = Suc i" "i < length A"
    by (cases x) auto
  with t show "\<exists>t'. for_loop [1..<length B + 1] (fill_cell A B match mismatch gap x) t = Inr t' \<and>
      fill_inv A B match mismatch gap (Suc x) 1 t'"
    using fill_row_ok [of A B match mismatch gap i t] by simp
qed

lemma nw_matrix_ok:
  "\<exists>dp. nw_matrix A B match mismatch gap = Inr dp \<and> dims (length A) (length B) dp \<and>
     (\<forall>r\<le>length A. \<forall>c\<le>length B. dp ! r ! c = nw_rec A B match mismatch gap r c)"
proof -
  let ?m = "length A" and ?n = "length B"
  from init_col_ok [OF dims_init_dp, of gap ?m ?n] obtain d1 where
    d1: "init_col gap ?m (init_dp ?m ?n) = Inr d1" "dims ?m ?n d1" "\<forall>r\<le>?m. d1 ! r ! 0 = int r * gap"
    by blast
  from init_row_ok [OF d1(2) d1(3)] obtain d2 where
    d2: "init_row gap ?n d1 = Inr d2" "dims ?m ?n d2" "\<forall>r\<le>?m. d2 ! r ! 0 = int r * gap"
      "\<forall>c\<le>?n. d2 ! 0 ! c = int c * gap"
    by blast
  have "d2 ! r ! c = nw_rec A B match mismatch gap r c"
    if "r \<le> ?m" "c \<le> ?n" "filled 1 1 r c" for r c
  proof -
    from that(3) have "r = 0 \<or> c = 0" by (auto simp: filled_def)
    with that d2(3,4) show ?thesis
      by (auto simp: nw_rec_col0)
  qed
  with d2(2) have "fill_inv A B match mismatch gap 1 1 d2"
    by (simp add: fill_inv_def)
  from fill_dp_ok [OF this] obtain d3 where
    d3: "fill_dp A B match mismatch gap d2 = Inr d3" "fill_inv A B match mismatch gap (?m + 1) 1 d3"
    by blast
  have "filled (?m + 1) 1 r c" if "r \<le> ?m" for r c
    using that by (simp add: filled_def)
  with d3(2) have "dims ?m ?n d3 \<and> (\<forall>r\<le>?m. \<forall>c\<le>?n. d3 ! r ! c = nw_rec A B match mismatch gap r c)"
    by (simp add: fill_inv_def)
  with d1(1) d2(1) d3(1) show ?thesis
    by (simp add: nw_matrix_def)
qed

section \<open>Global alignments and their scores\<close>

lemma score_append:
  "score match mismatch gap (xs @ ys) = score match mismatch gap xs + score match mismatch gap ys"
  by (simp add: score_def)

lemma score_single: "score match mismatch gap [c] = col_score match mismatch gap c"
  by (simp add: score_def)

lemma tb_path_alignment:
  "i \<le> length A \<Longrightarrow> j \<le> length B \<Longrightarrow>
     is_alignment (tb_path A B match mismatch gap i j) (take i A) (take j B)"
  by (induction A B match mismatch gap i j rule: tb_path.induct)
    (simp_all add: is_alignment_def take_Suc_conv_app_nth)

lemma tb_path_score:
  "score match mismatch gap (tb_path A B match mismatch gap i j) = nw_rec A B match mismatch gap i j"
proof (induction A B match mismatch gap i j rule: tb_path.induct)
  case (1 A B match mismatch gap)
  show ?case by (simp add: score_def)
next
  case (2 A B match mismatch gap i)
  then show ?case
    by (simp add: score_append score_single nw_rec_col0 algebra_simps)
next
  case (3 A B match mismatch gap j)
  then show ?case
    by (simp add: score_append score_single algebra_simps)
next
  case (4 A B match mismatch gap i j)
  let ?D = "nw_rec A B match mismatch gap"
  let ?s = "if A ! i = B ! j then match else mismatch"
  show ?case
  proof (cases "?D (Suc i) (Suc j) = ?D i j + ?s")
    case True
    with 4(1) show ?thesis
      by (simp add: score_append score_single)
  next
    case d: False
    show ?thesis
    proof (cases "?D (Suc i) (Suc j) = ?D i (Suc j) + gap")
      case True
      with d 4(2) show ?thesis
        by (simp add: score_append score_single)
    next
      case u: False
      have "?D (Suc i) (Suc j) = max (?D i j + ?s) (max (?D i (Suc j) + gap) (?D (Suc i) j + gap))"
        by (simp add: nw_rec.simps(3))
      with d u have l: "?D (Suc i) (Suc j) = ?D (Suc i) j + gap"
        by (metis max_def)
      from d u have "tb_path A B match mismatch gap (Suc i) (Suc j) =
          tb_path A B match mismatch gap (Suc i) j @ [Gap1 (B ! j)]"
        by simp
      with 4(3) [OF d u] l show ?thesis
        by (simp only: score_append score_single col_score.simps)
    qed
  qed
qed

lemma score_only_gap1:
  "concat (map sym1 al) = [] \<Longrightarrow>
     score match mismatch gap al = int (length (concat (map sym2 al))) * gap"
proof (induction al)
  case Nil
  show ?case by (simp add: score_def)
next
  case (Cons c al)
  then show ?case
    by (cases c) (simp_all add: score_def algebra_simps)
qed

lemma score_only_gap2:
  "concat (map sym2 al) = [] \<Longrightarrow>
     score match mismatch gap al = int (length (concat (map sym1 al))) * gap"
proof (induction al)
  case Nil
  show ?case by (simp add: score_def)
next
  case (Cons c al)
  then show ?case
    by (cases c) (simp_all add: score_def algebra_simps)
qed

lemma nw_rec_upper:
  "i \<le> length A \<Longrightarrow> j \<le> length B \<Longrightarrow> is_alignment al (take i A) (take j B) \<Longrightarrow>
     score match mismatch gap al \<le> nw_rec A B match mismatch gap i j"
proof (induction A B match mismatch gap i j arbitrary: al rule: nw_rec.induct)
  case (1 A B match mismatch gap j)
  then show ?case
    using score_only_gap1 [of al match mismatch gap] by (simp add: is_alignment_def)
next
  case (2 A B match mismatch gap i)
  then show ?case
    using score_only_gap2 [of al match mismatch gap] by (simp add: is_alignment_def)
next
  case (3 A B match mismatch gap i j)
  let ?D = "nw_rec A B match mismatch gap"
  from "3.prems" have i: "i < length A" and j: "j < length B"
    by simp_all
  from "3.prems"(3) have r1: "concat (map sym1 al) = take i A @ [A ! i]"
    and r2: "concat (map sym2 al) = take j B @ [B ! j]"
    using i j by (simp_all add: is_alignment_def take_Suc_conv_app_nth)
  from r1 have "al \<noteq> []" by auto
  then obtain al' c where al: "al = al' @ [c]"
    by (metis rev_exhaust)
  show ?case
  proof (cases c)
    case (Pairing a b)
    with r1 r2 al have "is_alignment al' (take i A) (take j B)" "a = A ! i" "b = B ! j"
      by (simp_all add: is_alignment_def)
    with "3.IH"(1) [of al'] i j have "score match mismatch gap al' \<le> ?D i j"
      by simp
    with al Pairing \<open>a = A ! i\<close> \<open>b = B ! j\<close> show ?thesis
      by (simp add: score_append score_single nw_rec.simps(3))
  next
    case (Gap2 a)
    with r1 r2 al have "is_alignment al' (take i A) (take (Suc j) B)"
      using j by (simp_all add: is_alignment_def take_Suc_conv_app_nth)
    with "3.IH"(2) [of al'] i j have "score match mismatch gap al' \<le> ?D i (Suc j)"
      by simp
    with al Gap2 show ?thesis
      by (simp add: score_append score_single nw_rec.simps(3))
  next
    case (Gap1 b)
    with r1 r2 al have "is_alignment al' (take (Suc i) A) (take j B)"
      using i by (simp_all add: is_alignment_def take_Suc_conv_app_nth)
    with "3.IH"(3) [of al'] i j have "score match mismatch gap al' \<le> ?D (Suc i) j"
      by simp
    with al Gap1 show ?thesis
      by (simp add: score_append score_single nw_rec.simps(3))
  qed
qed

section \<open>The traceback on a filled matrix\<close>

lemma py_get_int: "0 \<le> i \<Longrightarrow> i < int (length xs) \<Longrightarrow> py_get xs i = Inr (xs ! nat i)"
  by (simp add: py_get_def)

lemma get2_int:
  "dims m n dp \<Longrightarrow> 0 \<le> i \<Longrightarrow> i \<le> int m \<Longrightarrow> 0 \<le> j \<Longrightarrow> j \<le> int n \<Longrightarrow>
     get2 dp i j = Inr (dp ! nat i ! nat j)"
  using get2_nat [of m n dp "nat i" "nat j"] by simp

lemma good_get2:
  "good_dp A B match mismatch gap dp \<Longrightarrow> 0 \<le> i \<Longrightarrow> i \<le> int (length A) \<Longrightarrow>
     0 \<le> j \<Longrightarrow> j \<le> int (length B) \<Longrightarrow>
     get2 dp i j = Inr (nw_rec A B match mismatch gap (nat i) (nat j))"
  using get2_int [of "length A" "length B" dp i j] by (simp add: good_dp_def)

lemma diag_cond_good:
  assumes "good_dp A B match mismatch gap dp"
    and "0 \<le> i" "i \<le> int (length A)" "0 \<le> j" "j \<le> int (length B)"
  shows "diag_cond A B match mismatch dp i j = Inr (diag_ok A B match mismatch gap i j)"
proof (cases "0 < i \<and> 0 < j")
  case True
  with assms have
    "get2 dp i j = Inr (nw_rec A B match mismatch gap (nat i) (nat j))"
    "get2 dp (i - 1) (j - 1) = Inr (nw_rec A B match mismatch gap (nat (i - 1)) (nat (j - 1)))"
    "py_get A (i - 1) = Inr (A ! nat (i - 1))"
    "py_get B (j - 1) = Inr (B ! nat (j - 1))"
    by (simp_all add: good_get2 py_get_int)
  with True show ?thesis
    by (simp add: diag_cond_def diag_ok_def)
next
  case False
  then show ?thesis
    by (auto simp: diag_cond_def diag_ok_def)
qed

lemma up_cond_good:
  assumes "good_dp A B match mismatch gap dp"
    and "0 \<le> i" "i \<le> int (length A)" "0 \<le> j" "j \<le> int (length B)"
  shows "up_cond gap dp i j = Inr (up_ok A B match mismatch gap i j)"
proof (cases "0 < i")
  case True
  with assms have
    "get2 dp i j = Inr (nw_rec A B match mismatch gap (nat i) (nat j))"
    "get2 dp (i - 1) j = Inr (nw_rec A B match mismatch gap (nat (i - 1)) (nat j))"
    by (simp_all add: good_get2)
  with True show ?thesis
    by (simp add: up_cond_def up_ok_def)
next
  case False
  then show ?thesis
    by (simp add: up_cond_def up_ok_def)
qed

lemma up_ok_col0: "0 < i \<Longrightarrow> up_ok A B match mismatch gap i 0"
  by (simp add: up_ok_def nw_rec_col0 algebra_simps)

lemma else_branch_j_pos:
  assumes "0 < i \<or> 0 < j" "0 \<le> j" "\<not> up_ok A B match mismatch gap i j"
  shows "0 < j"
proof (rule ccontr)
  assume "\<not> 0 < j"
  with assms(1,2) have "j = 0" "0 < i" by auto
  with assms(3) up_ok_col0 [of i A B match mismatch gap] show False by simp
qed

lemma tb_step_good:
  assumes g: "good_dp A B match mismatch gap dp"
    and b: "0 \<le> i" "i \<le> int (length A)" "0 \<le> j" "j \<le> int (length B)"
    and c: "0 < i \<or> 0 < j"
  shows "tb_step A B match mismatch gap dp (i, j, a1, a2) =
    Inr (if diag_ok A B match mismatch gap i j
         then (i - 1, j - 1, A ! nat (i - 1) # a1, B ! nat (j - 1) # a2)
         else if up_ok A B match mismatch gap i j
         then (i - 1, j, A ! nat (i - 1) # a1, CHR ''-'' # a2)
         else (i, j - 1, CHR ''-'' # a1, B ! nat (j - 1) # a2))"
proof -
  note dc = diag_cond_good [OF g b] and uc = up_cond_good [OF g b]
  show ?thesis
  proof (cases "diag_ok A B match mismatch gap i j")
    case True
    then have "0 < i" "0 < j" by (simp_all add: diag_ok_def)
    with b have "py_get A (i - 1) = Inr (A ! nat (i - 1))" "py_get B (j - 1) = Inr (B ! nat (j - 1))"
      by (simp_all add: py_get_int)
    with True dc show ?thesis
      by (simp add: tb_step_def)
  next
    case d: False
    show ?thesis
    proof (cases "up_ok A B match mismatch gap i j")
      case True
      then have "0 < i" by (simp add: up_ok_def)
      with b have "py_get A (i - 1) = Inr (A ! nat (i - 1))"
        by (simp add: py_get_int)
      with True d dc uc show ?thesis
        by (simp add: tb_step_def)
    next
      case u: False
      from else_branch_j_pos [OF c b(3) u] have "0 < j" .
      with b have "py_get B (j - 1) = Inr (B ! nat (j - 1))"
        by (simp add: py_get_int)
      with u d dc uc show ?thesis
        by (simp add: tb_step_def)
    qed
  qed
qed

lemma nat_1_plus_int: "nat (1 + int i) = Suc i"
  by arith

lemma diag_ok_Suc:
  "diag_ok A B match mismatch gap (int (Suc i)) (int (Suc j)) \<longleftrightarrow>
     nw_rec A B match mismatch gap (Suc i) (Suc j) =
       nw_rec A B match mismatch gap i j + (if A ! i = B ! j then match else mismatch)"
  by (simp add: diag_ok_def nat_1_plus_int)

lemma up_ok_Suc:
  "up_ok A B match mismatch gap (int (Suc i)) (int j) \<longleftrightarrow>
     nw_rec A B match mismatch gap (Suc i) j = nw_rec A B match mismatch gap i j + gap"
  by (simp add: up_ok_def nat_1_plus_int)

lemma diag_ok_0 [simp]:
  "\<not> diag_ok A B match mismatch gap i 0" "\<not> diag_ok A B match mismatch gap 0 j"
  "\<not> up_ok A B match mismatch gap 0 j"
  by (simp_all add: diag_ok_def up_ok_def)

lemma traceback_unfold:
  "0 < i \<or> 0 < j \<Longrightarrow> tb_step A B match mismatch gap dp (i, j, a1, a2) = Inr st \<Longrightarrow>
     traceback A B match mismatch gap dp (i, j, a1, a2) = traceback A B match mismatch gap dp st"
  by (subst traceback.simps) simp

lemma traceback_good:
  "good_dp A B match mismatch gap dp \<Longrightarrow> i \<le> length A \<Longrightarrow> j \<le> length B \<Longrightarrow>
    traceback A B match mismatch gap dp (int i, int j, a1, a2) =
      Inr (map render1 (tb_path A B match mismatch gap i j) @ a1,
           map render2 (tb_path A B match mismatch gap i j) @ a2)"
proof (induction A B match mismatch gap i j arbitrary: a1 a2 rule: tb_path.induct)
  case (1 A B match mismatch gap)
  show ?case by simp
next
  case (2 A B match mismatch gap i)
  have "tb_step A B match mismatch gap dp (int (Suc i), int 0, a1, a2) =
      Inr (int i, int 0, A ! i # a1, CHR ''-'' # a2)"
    using tb_step_good [OF "2.prems"(1), of "int (Suc i)" "int 0" a1 a2] "2.prems"(2)
    by (simp add: up_ok_col0)
  then have "traceback A B match mismatch gap dp (int (Suc i), int 0, a1, a2) =
      traceback A B match mismatch gap dp (int i, int 0, A ! i # a1, CHR ''-'' # a2)"
    by (intro traceback_unfold) simp_all
  with "2.IH" [of "A ! i # a1" "CHR ''-'' # a2"] "2.prems" show ?case
    by simp
next
  case (3 A B match mismatch gap j)
  have "tb_step A B match mismatch gap dp (int 0, int (Suc j), a1, a2) =
      Inr (int 0, int j, CHR ''-'' # a1, B ! j # a2)"
    using tb_step_good [OF "3.prems"(1), of "int 0" "int (Suc j)" a1 a2] "3.prems"(3)
    by simp
  then have "traceback A B match mismatch gap dp (int 0, int (Suc j), a1, a2) =
      traceback A B match mismatch gap dp (int 0, int j, CHR ''-'' # a1, B ! j # a2)"
    by (intro traceback_unfold) simp_all
  with "3.IH" [of "CHR ''-'' # a1" "B ! j # a2"] "3.prems" show ?case
    by simp
next
  case (4 A B match mismatch gap i j)
  let ?D = "nw_rec A B match mismatch gap"
  let ?s = "if A ! i = B ! j then match else mismatch"
  note st = tb_step_good [OF "4.prems"(1), of "int (Suc i)" "int (Suc j)" a1 a2,
      unfolded diag_ok_Suc up_ok_Suc]
  from "4.prems" have ij: "i \<le> length A" "j \<le> length B" by simp_all
  show ?case
  proof (cases "?D (Suc i) (Suc j) = ?D i j + ?s")
    case True
    with st "4.prems" have "tb_step A B match mismatch gap dp (int (Suc i), int (Suc j), a1, a2) =
        Inr (int i, int j, A ! i # a1, B ! j # a2)"
      by simp
    then have "traceback A B match mismatch gap dp (int (Suc i), int (Suc j), a1, a2) =
        traceback A B match mismatch gap dp (int i, int j, A ! i # a1, B ! j # a2)"
      by (intro traceback_unfold) simp_all
    with "4.IH"(1) [OF True "4.prems"(1) ij, of "A ! i # a1" "B ! j # a2"] True show ?thesis
      by simp
  next
    case d: False
    show ?thesis
    proof (cases "?D (Suc i) (Suc j) = ?D i (Suc j) + gap")
      case True
      with d st "4.prems" have "tb_step A B match mismatch gap dp (int (Suc i), int (Suc j), a1, a2) =
          Inr (int i, int (Suc j), A ! i # a1, CHR ''-'' # a2)"
        by simp
      then have "traceback A B match mismatch gap dp (int (Suc i), int (Suc j), a1, a2) =
          traceback A B match mismatch gap dp (int i, int (Suc j), A ! i # a1, CHR ''-'' # a2)"
        by (intro traceback_unfold) simp_all
      with "4.IH"(2) [OF d True "4.prems"(1) ij(1) "4.prems"(3), of "A ! i # a1" "CHR ''-'' # a2"]
        d True show ?thesis
        by simp
    next
      case u: False
      with d st "4.prems" have "tb_step A B match mismatch gap dp (int (Suc i), int (Suc j), a1, a2) =
          Inr (int (Suc i), int j, CHR ''-'' # a1, B ! j # a2)"
        by simp
      then have "traceback A B match mismatch gap dp (int (Suc i), int (Suc j), a1, a2) =
          traceback A B match mismatch gap dp (int (Suc i), int j, CHR ''-'' # a1, B ! j # a2)"
        by (intro traceback_unfold) simp_all
      with "4.IH"(3) [OF d u "4.prems"(1) "4.prems"(2) ij(2), of "CHR ''-'' # a1" "B ! j # a2"]
        d u show ?thesis
        by simp
    qed
  qed
qed

section \<open>Results of \<open>needleman_wunsch\<close>\<close>

lemma nw_matrix_good:
  "\<exists>dp. nw_matrix A B match mismatch gap = Inr dp \<and> good_dp A B match mismatch gap dp"
  using nw_matrix_ok [of A B match mismatch gap] by (simp add: good_dp_def)

lemma needleman_wunsch_eq:
  "needleman_wunsch A B match mismatch gap =
     Inr (nw_rec A B match mismatch gap (length A) (length B),
          map render1 (tb_path A B match mismatch gap (length A) (length B)),
          map render2 (tb_path A B match mismatch gap (length A) (length B)))"
proof -
  from nw_matrix_good obtain dp where
    dp: "nw_matrix A B match mismatch gap = Inr dp" "good_dp A B match mismatch gap dp"
    by blast
  have "get2 dp (int (length A)) (int (length B)) =
      Inr (nw_rec A B match mismatch gap (length A) (length B))"
    using good_get2 [OF dp(2), of "int (length A)" "int (length B)"] by simp
  with dp(1) traceback_good [OF dp(2), of "length A" "length B" "[]" "[]"] show ?thesis
    by (simp add: needleman_wunsch_def)
qed

lemma nw_rec_max:
  assumes "i \<le> length A" "j \<le> length B"
  shows "max_alignment_score match mismatch gap (take i A) (take j B)
           (nw_rec A B match mismatch gap i j)"
  unfolding max_alignment_score_def
proof (intro conjI exI allI impI)
  show "is_alignment (tb_path A B match mismatch gap i j) (take i A) (take j B)"
    using assms by (rule tb_path_alignment)
  show "score match mismatch gap (tb_path A B match mismatch gap i j) =
      nw_rec A B match mismatch gap i j"
    by (rule tb_path_score)
next
  fix al
  assume "is_alignment al (take i A) (take j B)"
  with assms show "score match mismatch gap al \<le> nw_rec A B match mismatch gap i j"
    by (rule nw_rec_upper)
qed

lemma degap_render1:
  "CHR ''-'' \<notin> set (concat (map sym1 al)) \<Longrightarrow> degap (map render1 al) = concat (map sym1 al)"
proof (induction al)
  case Nil
  show ?case by (simp add: degap_def)
next
  case (Cons c al)
  then show ?case
    by (cases c) (auto simp: degap_def)
qed

lemma degap_render2:
  "CHR ''-'' \<notin> set (concat (map sym2 al)) \<Longrightarrow> degap (map render2 al) = concat (map sym2 al)"
proof (induction al)
  case Nil
  show ?case by (simp add: degap_def)
next
  case (Cons c al)
  then show ?case
    by (cases c) (auto simp: degap_def)
qed

lemma no_double_gap_col:
  assumes "CHR ''-'' \<notin> set (concat (map sym1 al))" "CHR ''-'' \<notin> set (concat (map sym2 al))"
    and "c \<in> set al"
  shows "\<not> (render1 c = CHR ''-'' \<and> render2 c = CHR ''-'')"
  using assms by (cases c) auto

lemma tb_path_full:
  "is_alignment (tb_path A B match mismatch gap (length A) (length B)) A B"
  using tb_path_alignment [of "length A" A "length B" B match mismatch gap] by simp

lemma tb_path_empty2:
  "i \<le> length A \<Longrightarrow> tb_path A [] match mismatch gap i 0 = map Gap2 (take i A)"
  by (induction i) (simp_all add: take_Suc_conv_app_nth)

lemma tb_path_empty1:
  "j \<le> length B \<Longrightarrow> tb_path [] B match mismatch gap 0 j = map Gap1 (take j B)"
  by (induction j) (simp_all add: take_Suc_conv_app_nth)

lemma nw_rec_sym:
  "nw_rec A B match mismatch gap i j = nw_rec B A match mismatch gap j i"
proof (induction A B match mismatch gap i j rule: nw_rec.induct)
  case (1 A B match mismatch gap j)
  show ?case by (simp add: nw_rec_col0)
next
  case (2 A B match mismatch gap i)
  show ?case by simp
next
  case (3 A B match mismatch gap i j)
  have "(A ! i = B ! j) = (B ! j = A ! i)" by auto
  with 3 show ?case
    by (simp add: nw_rec.simps(3) max.commute)
qed

lemma swap_col_props:
  "concat (map sym1 (map swap_col al)) = concat (map sym2 al)"
  "concat (map sym2 (map swap_col al)) = concat (map sym1 al)"
  "map render1 (map swap_col al) = map render2 al"
  "map render2 (map swap_col al) = map render1 al"
  "score match mismatch gap (map swap_col al) = score match mismatch gap al"
proof (induction al)
  case Nil
  {
    case 1 show ?case by simp
  next
    case 2 show ?case by simp
  next
    case 3 show ?case by simp
  next
    case 4 show ?case by simp
  next
    case 5 show ?case by simp
  }
next
  case (Cons c al)
  {
    case 1 with Cons show ?case by (cases c) simp_all
  next
    case 2 with Cons show ?case by (cases c) simp_all
  next
    case 3 with Cons show ?case by (cases c) simp_all
  next
    case 4 with Cons show ?case by (cases c) simp_all
  next
    case 5 with Cons show ?case by (cases c) (auto simp: score_def)
  }
qed

section \<open>Reachable traceback states\<close>

lemma tb_reach_bounds:
  "tb_reach A B match mismatch gap st \<Longrightarrow>
     0 \<le> fst st \<and> fst st \<le> int (length A) \<and> 0 \<le> fst (snd st) \<and> fst (snd st) \<le> int (length B)"
proof (induction rule: tb_reach.induct)
  case start
  show ?case by simp
next
  case (step i j a1 a2 dp st)
  from nw_matrix_good [of A B match mismatch gap] step.hyps(3)
  have g: "good_dp A B match mismatch gap dp" by auto
  from step.IH have b: "0 \<le> i" "i \<le> int (length A)" "0 \<le> j" "j \<le> int (length B)"
    by simp_all
  note s = tb_step_good [OF g b step.hyps(2), of a1 a2]
  show ?case
  proof (cases "diag_ok A B match mismatch gap i j")
    case True
    then have "0 < i" "0 < j" by (simp_all add: diag_ok_def)
    with s step.hyps(4) True b show ?thesis by auto
  next
    case d: False
    show ?thesis
    proof (cases "up_ok A B match mismatch gap i j")
      case True
      then have "0 < i" by (simp add: up_ok_def)
      with s step.hyps(4) True d b show ?thesis by auto
    next
      case u: False
      from else_branch_j_pos [OF step.hyps(2) b(3) u] have "0 < j" .
      with s step.hyps(4) u d b show ?thesis by auto
    qed
  qed
qed

lemma tb_path_Nil_iff:
  "tb_path A B match mismatch gap i j = [] \<longleftrightarrow> i = 0 \<and> j = 0"
proof (cases i)
  case 0
  then show ?thesis by (cases j) simp_all
next
  case (Suc i')
  then show ?thesis by (cases j) simp_all
qed

lemma traceback_reached:
  assumes g: "good_dp A B match mismatch gap dp"
    and b: "0 \<le> i" "i \<le> int (length A)" "0 \<le> j" "j \<le> int (length B)"
  shows "traceback A B match mismatch gap dp (i, j, r1, r2) =
      Inr (map render1 (tb_path A B match mismatch gap (nat i) (nat j)) @ r1,
           map render2 (tb_path A B match mismatch gap (nat i) (nat j)) @ r2)"
proof -
  from b have "nat i \<le> length A" "nat j \<le> length B" by simp_all
  from traceback_good [OF g this, of r1 r2] b show ?thesis by simp
qed

lemma traceback_stops_iff:
  assumes g: "good_dp A B match mismatch gap dp"
    and b: "0 \<le> i" "i \<le> int (length A)" "0 \<le> j" "j \<le> int (length B)"
  shows "(traceback A B match mismatch gap dp (i, j, r1, r2) = Inr (r1, r2)) = (i = 0 \<and> j = 0)"
proof -
  define p where "p = tb_path A B match mismatch gap (nat i) (nat j)"
  have t: "traceback A B match mismatch gap dp (i, j, r1, r2) =
      Inr (map render1 p @ r1, map render2 p @ r2)"
    unfolding p_def using g b by (rule traceback_reached)
  have "(map render1 p @ r1 = r1) = (p = [])"
    by simp
  moreover have "p = [] \<Longrightarrow> map render2 p @ r2 = r2"
    by simp
  moreover have "(p = []) = (i = 0 \<and> j = 0)"
    unfolding p_def tb_path_Nil_iff using b by auto
  ultimately show ?thesis
    unfolding t by auto
qed

lemma tb_reach_step_ex:
  assumes g: "good_dp A B match mismatch gap dp"
    and m: "nw_matrix A B match mismatch gap = Inr dp"
    and r: "tb_reach A B match mismatch gap (i, j, r1, r2)"
    and c: "0 < i \<or> 0 < j"
  shows "\<exists>i' j' r1' r2'. tb_step A B match mismatch gap dp (i, j, r1, r2) = Inr (i', j', r1', r2') \<and>
      tb_reach A B match mismatch gap (i', j', r1', r2') \<and>
      traceback A B match mismatch gap dp (i, j, r1, r2) =
        traceback A B match mismatch gap dp (i', j', r1', r2') \<and>
      0 \<le> i' \<and> 0 \<le> j' \<and> nat i' + nat j' < nat i + nat j"
proof -
  from tb_reach_bounds [OF r]
  have b: "0 \<le> i" "i \<le> int (length A)" "0 \<le> j" "j \<le> int (length B)"
    by simp_all
  from tb_step_good [OF g b c, of r1 r2] obtain st where
    st: "tb_step A B match mismatch gap dp (i, j, r1, r2) = Inr st"
    by blast
  obtain i' j' r1' r2' where s: "st = (i', j', r1', r2')"
    by (cases st) auto
  from tb_reach.step [OF r c m st] have r': "tb_reach A B match mismatch gap (i', j', r1', r2')"
    by (simp add: s)
  from tb_reach_bounds [OF r'] have b': "0 \<le> i'" "0 \<le> j'"
    by simp_all
  have u: "traceback A B match mismatch gap dp (i, j, r1, r2) =
      traceback A B match mismatch gap dp (i', j', r1', r2')"
    using c st unfolding s by (rule traceback_unfold)
  have d: "nat i' + nat j' < nat i + nat j"
  proof (cases "diag_ok A B match mismatch gap i j")
    case True
    then have "0 < i" "0 < j" by (simp_all add: diag_ok_def)
    with tb_step_good [OF g b c, of r1 r2] st True s show ?thesis by auto
  next
    case d: False
    show ?thesis
    proof (cases "up_ok A B match mismatch gap i j")
      case True
      then have "0 < i" by (simp add: up_ok_def)
      with tb_step_good [OF g b c, of r1 r2] st True d s b show ?thesis by auto
    next
      case u: False
      from else_branch_j_pos [OF c b(3) u] have "0 < j" .
      with tb_step_good [OF g b c, of r1 r2] st u d s b show ?thesis by auto
    qed
  qed
  from st s r' u b' d show ?thesis by blast
qed

lemma tb_reach_same_result:
  assumes g: "good_dp A B match mismatch gap dp"
    and m: "nw_matrix A B match mismatch gap = Inr dp"
  shows "tb_reach A B match mismatch gap st \<Longrightarrow>
     traceback A B match mismatch gap dp st =
       traceback A B match mismatch gap dp (int (length A), int (length B), [], [])"
proof (induction rule: tb_reach.induct)
  case start
  show ?case by simp
next
  case (step i j a1 a2 dp' st)
  from step.hyps(3) m have "dp' = dp" by simp
  with step.hyps(4) have "tb_step A B match mismatch gap dp (i, j, a1, a2) = Inr st"
    by simp
  from traceback_unfold [OF step.hyps(2) this] step.IH show ?case
    by simp
qed

lemma tb_reach_final:
  assumes g: "good_dp A B match mismatch gap dp"
    and m: "nw_matrix A B match mismatch gap = Inr dp"
  shows "tb_reach A B match mismatch gap (i, j, r1, r2) \<Longrightarrow>
     \<exists>f1 f2. tb_reach A B match mismatch gap (0, 0, f1, f2)"
proof (induction "nat i + nat j" arbitrary: i j r1 r2 rule: less_induct)
  case less
  from tb_reach_bounds [OF less.prems] have b: "0 \<le> i" "0 \<le> j"
    by simp_all
  show ?case
  proof (cases "0 < i \<or> 0 < j")
    case True
    from tb_reach_step_ex [OF g m less.prems True] obtain i' j' r1' r2' where
      r': "tb_reach A B match mismatch gap (i', j', r1', r2')"
      and d: "nat i' + nat j' < nat i + nat j"
      by blast
    from less.hyps [OF d r'] show ?thesis .
  next
    case False
    with b have "i = 0" "j = 0" by auto
    with less.prems show ?thesis by blast
  qed
qed

section \<open>\<open>msa\<close> on fewer than two sequences\<close>

lemma msa_singleton: "msa [s] match mismatch gap = Inr (0, [s])"
  by (simp add: msa_def msa_loop_def py_get_def py_max_def ljust_def final_score_of_def)

lemma msa_empty: "msa [] match mismatch gap = Inl IndexError"
  by (simp add: msa_def msa_loop_def py_get_def)

section \<open>Claims about the pairwise aligner\<close>

text \<open>
  Claim C1. For all sequences \<open>A\<close>, \<open>B\<close> and every integer scoring triple, the
  matrix \<open>needleman_wunsch\<close> builds is produced without an exception, and each
  entry \<open>dp[i][j]\<close> with \<open>i \<le> len(A)\<close>, \<open>j \<le> len(B)\<close> is the maximum score of a
  global alignment of the first \<open>i\<close> symbols of \<open>A\<close> with the first \<open>j\<close> symbols of
  \<open>B\<close>: some alignment has that score and none has more. The returned score is
  \<open>dp[m][n]\<close>, the maximum over all global alignments of \<open>A\<close> and \<open>B\<close>.
\<close>

theorem nw_dp_optimal:
  "\<exists>dp. nw_matrix A B match mismatch gap = Inr dp \<and>
     (\<forall>i\<le>length A. \<forall>j\<le>length B.
        max_alignment_score match mismatch gap (take i A) (take j B) (dp ! i ! j)) \<and>
     (\<exists>a1 a2. needleman_wunsch A B match mismatch gap = Inr (dp ! length A ! length B, a1, a2)) \<and>
     max_alignment_score match mismatch gap A B (dp ! length A ! length B)"
proof -
  from nw_matrix_ok obtain dp where
    dp: "nw_matrix A B match mismatch gap = Inr dp"
      "\<forall>r\<le>length A. \<forall>c\<le>length B. dp ! r ! c = nw_rec A B match mismatch gap r c"
    by blast
  have a: "\<forall>i\<le>length A. \<forall>j\<le>length B.
      max_alignment_score match mismatch gap (take i A) (take j B) (dp ! i ! j)"
    using dp(2) nw_rec_max by simp
  then have "max_alignment_score match mismatch gap (take (length A) A) (take (length B) B)
      (dp ! length A ! length B)"
    by blast
  then have b: "max_alignment_score match mismatch gap A B (dp ! length A ! length B)"
    by simp
  have c: "\<exists>a1 a2. needleman_wunsch A B match mismatch gap = Inr (dp ! length A ! length B, a1, a2)"
    using dp(2) by (simp add: needleman_wunsch_eq)
  from dp(1) a b c show ?thesis by blast
qed

theorem nw_dp_optimal_witness:
  "(2::nat) \<le> length ''AC'' \<and> (1::nat) \<le> length ''A'' \<and>
   is_alignment [Pairing CHR ''A'' CHR ''A'', Gap2 CHR ''C''] (take 2 ''AC'') (take 1 ''A'') \<and>
   nw_matrix ''AC'' ''A'' 1 (- 1) (- 2) = Inr [[0, - 2], [- 2, 1], [- 4, - 1]] \<and>
   score 1 (- 1) (- 2) [Pairing CHR ''A'' CHR ''A'', Gap2 CHR ''C''] \<le> - 1"
proof -
  have m: "nw_matrix ''AC'' ''A'' 1 (- 1) (- 2) = Inr [[0, - 2], [- 2, 1], [- 4, - 1]]"
    by code_simp
  have b: "(2::nat) \<le> length ''AC''" "(1::nat) \<le> length ''A''"
    by simp_all
  have al: "is_alignment [Pairing CHR ''A'' CHR ''A'', Gap2 CHR ''C''] (take 2 ''AC'') (take 1 ''A'')"
    by (simp add: is_alignment_def)
  from nw_dp_optimal [of "''AC''" "''A''" 1 "- 1" "- 2"] m
  have "\<forall>i\<le>length ''AC''. \<forall>j\<le>length ''A''.
      max_alignment_score 1 (- 1) (- 2) (take i ''AC'') (take j ''A'')
        ([[0, - 2], [- 2, 1], [- 4, - 1]] ! i ! j)"
    by simp
  with b have "max_alignment_score 1 (- 1) (- 2) (take 2 ''AC'') (take 1 ''A'')
      ([[0, - 2], [- 2, 1], [- 4, - 1]] ! 2 ! 1)"
    by blast
  then have "\<forall>al. is_alignment al (take 2 ''AC'') (take 1 ''A'') \<longrightarrow>
      score 1 (- 1) (- 2) al \<le> - 1"
    by (simp add: max_alignment_score_def)
  with al have "score 1 (- 1) (- 2) [Pairing CHR ''A'' CHR ''A'', Gap2 CHR ''C''] \<le> - 1"
    by blast
  with b al m show ?thesis by blast
qed

text \<open>
  Claim C5, as stated: \<open>needleman_wunsch("ACGT", "AGT")\<close> with match 1, mismatch -1,
  gap -2 returns score 0 with \<open>ACGT\<close> over \<open>A-GT\<close>. It does not: three matches and
  one gap column score 1.
\<close>

theorem nw_example_score_not_0:
  "needleman_wunsch ''ACGT'' ''AGT'' 1 (- 1) (- 2) \<noteq> Inr (0, ''ACGT'', ''A-GT'')"
  by code_simp

text \<open>
  Claim C5, amended: \<open>needleman_wunsch("ACGT", "AGT")\<close> with match 1, mismatch -1,
  gap -2 returns score 1, with the alignment \<open>ACGT\<close> over \<open>A-GT\<close>.
\<close>

theorem nw_example:
  "needleman_wunsch ''ACGT'' ''AGT'' 1 (- 1) (- 2) = Inr (1, ''ACGT'', ''A-GT'')"
  by code_simp

text \<open>
  Claim C6. For every sequence \<open>A\<close> and scoring triple,
  \<open>needleman_wunsch(A, "")\<close> returns the score \<open>len(A) * gap\<close>, \<open>A\<close> itself as first
  row and \<open>len(A)\<close> gap symbols as second row; \<open>needleman_wunsch("", A)\<close> returns
  the same score with the rows the other way round.
\<close>

theorem nw_against_empty:
  "needleman_wunsch A [] match mismatch gap =
     Inr (int (length A) * gap, A, replicate (length A) CHR ''-'') \<and>
   needleman_wunsch [] A match mismatch gap =
     Inr (int (length A) * gap, replicate (length A) CHR ''-'', A)"
proof -
  have 1: "map render1 (map Gap2 A) = A" "map render2 (map Gap1 A) = A"
    by (induction A) simp_all
  have 2: "map render2 (map Gap2 A) = replicate (length A) CHR ''-''"
    "map render1 (map Gap1 A) = replicate (length A) CHR ''-''"
    by (induction A) simp_all
  show ?thesis
    using 1 2 by (simp add: needleman_wunsch_eq tb_path_empty1 tb_path_empty2 nw_rec_col0)
qed

text \<open>
  Claim C7. For all sequences and every scoring triple \<open>needleman_wunsch\<close> returns
  two rows of equal length; deleting the gap symbols from the first row gives
  \<open>A\<close> when \<open>A\<close> holds no gap symbol, and deleting them from the second row gives
  \<open>B\<close> when \<open>B\<close> holds none.
\<close>

theorem nw_roundtrip:
  "\<exists>s a1 a2. needleman_wunsch A B match mismatch gap = Inr (s, a1, a2) \<and>
     length a1 = length a2 \<and>
     (CHR ''-'' \<notin> set A \<longrightarrow> degap a1 = A) \<and>
     (CHR ''-'' \<notin> set B \<longrightarrow> degap a2 = B)"
  using tb_path_full [of A B match mismatch gap]
  by (simp add: needleman_wunsch_eq is_alignment_def degap_render1 degap_render2)

theorem nw_roundtrip_witness:
  "CHR ''-'' \<notin> set ''AC'' \<and> CHR ''-'' \<notin> set ''A'' \<and>
   (\<exists>s a1 a2. needleman_wunsch ''AC'' ''A'' 1 (- 1) (- 2) = Inr (s, a1, a2) \<and>
      length a1 = length a2 \<and> degap a1 = ''AC'' \<and> degap a2 = ''A'')"
  using nw_roundtrip [of "''AC''" "''A''" 1 "- 1" "- 2"] by simp

text \<open>
  Claim C8, as stated: \<open>needleman_wunsch(B, A)\<close> returns the score of
  \<open>needleman_wunsch(A, B)\<close> with the two rows swapped. The rows are not the swapped
  ones when the traceback meets a tie between the vertical and the horizontal
  move: the vertical one is tried first in both calls.
\<close>

theorem nw_swap_rows_counterexample:
  "needleman_wunsch ''ACA'' ''CAC'' 1 (- 1) (- 2) = Inr (- 2, ''-ACA'', ''CAC-'') \<and>
   needleman_wunsch ''CAC'' ''ACA'' 1 (- 1) (- 2) \<noteq> Inr (- 2, ''CAC-'', ''-ACA'')"
  by code_simp

text \<open>
  Claim C8, amended: for all sequences and every scoring triple
  \<open>needleman_wunsch(A, B)\<close> and \<open>needleman_wunsch(B, A)\<close> return the same score, and
  the rows of \<open>needleman_wunsch(B, A)\<close>, swapped, are the two rows of a global
  alignment of \<open>A\<close> and \<open>B\<close> with that score (not always the rows that
  \<open>needleman_wunsch(A, B)\<close> returns).
\<close>

theorem nw_score_symmetric:
  "\<exists>s a1 a2 b1 b2.
     needleman_wunsch A B match mismatch gap = Inr (s, a1, a2) \<and>
     needleman_wunsch B A match mismatch gap = Inr (s, b1, b2) \<and>
     (\<exists>al. is_alignment al A B \<and> map render1 al = b2 \<and> map render2 al = b1 \<and>
        score match mismatch gap al = s)"
proof -
  let ?p = "tb_path B A match mismatch gap (length B) (length A)"
  let ?q = "tb_path A B match mismatch gap (length A) (length B)"
  let ?al = "map swap_col ?p"
  from tb_path_full [of B A match mismatch gap]
  have "concat (map sym1 ?p) = B" "concat (map sym2 ?p) = A"
    by (simp_all add: is_alignment_def)
  then have al: "is_alignment ?al A B"
    unfolding is_alignment_def swap_col_props by simp
  have sc: "score match mismatch gap ?al = nw_rec A B match mismatch gap (length A) (length B)"
    unfolding swap_col_props tb_path_score by (rule nw_rec_sym)
  have r: "map render1 ?al = map render2 ?p" "map render2 ?al = map render1 ?p"
    by (rule swap_col_props)+
  have nwA: "needleman_wunsch A B match mismatch gap =
      Inr (nw_rec A B match mismatch gap (length A) (length B), map render1 ?q, map render2 ?q)"
    by (rule needleman_wunsch_eq)
  have nwB: "needleman_wunsch B A match mismatch gap =
      Inr (nw_rec A B match mismatch gap (length A) (length B), map render1 ?p, map render2 ?p)"
    unfolding needleman_wunsch_eq by (simp add: nw_rec_sym [of B A])
  from nwA nwB al sc r show ?thesis by blast
qed

text \<open>
  Claim C10. For sequences \<open>A\<close> and \<open>B\<close> without gap symbols and every scoring
  triple, no column of the returned pair holds the gap symbol in both rows.
\<close>

theorem nw_no_double_gap:
  assumes "CHR ''-'' \<notin> set A" "CHR ''-'' \<notin> set B"
  shows "\<exists>s a1 a2. needleman_wunsch A B match mismatch gap = Inr (s, a1, a2) \<and>
     (\<forall>k<length a1. \<not> (a1 ! k = CHR ''-'' \<and> a2 ! k = CHR ''-''))"
proof -
  let ?p = "tb_path A B match mismatch gap (length A) (length B)"
  from tb_path_full [of A B match mismatch gap] assms
  have g: "CHR ''-'' \<notin> set (concat (map sym1 ?p))" "CHR ''-'' \<notin> set (concat (map sym2 ?p))"
    by (simp_all add: is_alignment_def)
  have "\<not> (map render1 ?p ! k = CHR ''-'' \<and> map render2 ?p ! k = CHR ''-'')"
    if "k < length ?p" for k
    using no_double_gap_col [OF g, of "?p ! k"] that by simp
  then show ?thesis
    by (simp add: needleman_wunsch_eq)
qed

theorem nw_no_double_gap_witness:
  "CHR ''-'' \<notin> set ''AC'' \<and> CHR ''-'' \<notin> set ''A'' \<and>
   (\<exists>s a1 a2. needleman_wunsch ''AC'' ''A'' 1 (- 1) (- 2) = Inr (s, a1, a2) \<and>
     (\<forall>k<length a1. \<not> (a1 ! k = CHR ''-'' \<and> a2 ! k = CHR ''-'')))"
proof -
  have h: "CHR ''-'' \<notin> set ''AC''" "CHR ''-'' \<notin> set ''A''" by simp_all
  from nw_no_double_gap [OF h, of 1 "- 1" "- 2"] h show ?thesis by blast
qed

section \<open>Claims about the traceback and the progressive aligner\<close>

text \<open>
  Claim C9. \<open>needleman_wunsch\<close> is total: for all sequences, empty ones included,
  and every integer scoring triple it returns a result and raises nothing. Its
  traceback loop, started in \<open>(m, n, "", "")\<close>, ends in a reached state with
  \<open>i = 0\<close> and \<open>j = 0\<close>, whose two strings are the rows returned. In every state
  \<open>(i, j, _, _)\<close> the loop reaches: the loop condition is false exactly when
  \<open>i = 0\<close> and \<open>j = 0\<close>; the loop stops there, returning the strings of that very
  state, exactly when \<open>i = 0\<close> and \<open>j = 0\<close>; while the condition is true the loop
  body raises nothing and the loop goes on from the state the body yields; and
  when both tests fail, so that the final \<open>else\<close> branch runs, \<open>j > 0\<close> and
  \<open>seq2[j-1]\<close> is an ordinary read of position \<open>j - 1\<close>.
\<close>

theorem nw_total:
  "\<exists>dp s a1 a2.
     nw_matrix A B match mismatch gap = Inr dp \<and>
     needleman_wunsch A B match mismatch gap = Inr (s, a1, a2) \<and>
     traceback A B match mismatch gap dp (int (length A), int (length B), [], []) = Inr (a1, a2) \<and>
     tb_reach A B match mismatch gap (0, 0, a1, a2) \<and>
     (\<forall>i j r1 r2. tb_reach A B match mismatch gap (i, j, r1, r2) \<longrightarrow>
        ((\<not> (0 < i \<or> 0 < j)) = (i = 0 \<and> j = 0)) \<and>
        ((traceback A B match mismatch gap dp (i, j, r1, r2) = Inr (r1, r2)) = (i = 0 \<and> j = 0)) \<and>
        traceback A B match mismatch gap dp (i, j, r1, r2) = Inr (a1, a2) \<and>
        (0 < i \<or> 0 < j \<longrightarrow>
           (\<exists>st. tb_step A B match mismatch gap dp (i, j, r1, r2) = Inr st \<and>
              tb_reach A B match mismatch gap st \<and>
              traceback A B match mismatch gap dp (i, j, r1, r2) =
                traceback A B match mismatch gap dp st)) \<and>
        (0 < i \<or> 0 < j \<longrightarrow> diag_cond A B match mismatch dp i j = Inr False \<longrightarrow>
           up_cond gap dp i j = Inr False \<longrightarrow>
           0 < j \<and> py_get B (j - 1) = Inr (B ! nat (j - 1))))"
proof -
  from nw_matrix_good obtain dp where
    m: "nw_matrix A B match mismatch gap = Inr dp" and g: "good_dp A B match mismatch gap dp"
    by blast
  define s where "s = nw_rec A B match mismatch gap (length A) (length B)"
  define a1 where "a1 = map render1 (tb_path A B match mismatch gap (length A) (length B))"
  define a2 where "a2 = map render2 (tb_path A B match mismatch gap (length A) (length B))"
  let ?init = "(int (length A), int (length B), [] :: string, [] :: string)"
  have nw: "needleman_wunsch A B match mismatch gap = Inr (s, a1, a2)"
    unfolding s_def a1_def a2_def by (rule needleman_wunsch_eq)
  have t0: "traceback A B match mismatch gap dp ?init = Inr (a1, a2)"
    unfolding a1_def a2_def
    using traceback_good [OF g, of "length A" "length B" "[]" "[]"] by simp
  have same: "traceback A B match mismatch gap dp st = Inr (a1, a2)"
    if "tb_reach A B match mismatch gap st" for st
    using tb_reach_same_result [OF g m that] t0 by simp
  from tb_reach_final [OF g m tb_reach.start] obtain f1 f2 where
    f: "tb_reach A B match mismatch gap (0, 0, f1, f2)"
    by blast
  have "traceback A B match mismatch gap dp (0, 0, f1, f2) = Inr (f1, f2)"
    by simp
  with same [OF f] have "f1 = a1" "f2 = a2" by simp_all
  with f have fin: "tb_reach A B match mismatch gap (0, 0, a1, a2)" by simp
  have each: "((\<not> (0 < i \<or> 0 < j)) = (i = 0 \<and> j = 0)) \<and>
      ((traceback A B match mismatch gap dp (i, j, r1, r2) = Inr (r1, r2)) = (i = 0 \<and> j = 0)) \<and>
      traceback A B match mismatch gap dp (i, j, r1, r2) = Inr (a1, a2) \<and>
      (0 < i \<or> 0 < j \<longrightarrow>
         (\<exists>st. tb_step A B match mismatch gap dp (i, j, r1, r2) = Inr st \<and>
            tb_reach A B match mismatch gap st \<and>
            traceback A B match mismatch gap dp (i, j, r1, r2) =
              traceback A B match mismatch gap dp st)) \<and>
      (0 < i \<or> 0 < j \<longrightarrow> diag_cond A B match mismatch dp i j = Inr False \<longrightarrow>
         up_cond gap dp i j = Inr False \<longrightarrow>
         0 < j \<and> py_get B (j - 1) = Inr (B ! nat (j - 1)))"
    if r: "tb_reach A B match mismatch gap (i, j, r1, r2)" for i j r1 r2
  proof -
    from tb_reach_bounds [OF r]
    have b: "0 \<le> i" "i \<le> int (length A)" "0 \<le> j" "j \<le> int (length B)"
      by simp_all
    have 1: "(\<not> (0 < i \<or> 0 < j)) = (i = 0 \<and> j = 0)"
      using b by auto
    have 2: "(traceback A B match mismatch gap dp (i, j, r1, r2) = Inr (r1, r2)) = (i = 0 \<and> j = 0)"
      using g b by (rule traceback_stops_iff)
    have 3: "traceback A B match mismatch gap dp (i, j, r1, r2) = Inr (a1, a2)"
      using r by (rule same)
    have 4: "\<exists>st. tb_step A B match mismatch gap dp (i, j, r1, r2) = Inr st \<and>
        tb_reach A B match mismatch gap st \<and>
        traceback A B match mismatch gap dp (i, j, r1, r2) =
          traceback A B match mismatch gap dp st" if "0 < i \<or> 0 < j"
      using tb_reach_step_ex [OF g m r that] by blast
    have 5: "0 < j \<and> py_get B (j - 1) = Inr (B ! nat (j - 1))"
      if c: "0 < i \<or> 0 < j" and u: "up_cond gap dp i j = Inr False"
    proof -
      from u up_cond_good [OF g b] have "\<not> up_ok A B match mismatch gap i j"
        by simp
      from else_branch_j_pos [OF c b(3) this] have "0 < j" .
      with b show ?thesis
        by (simp add: py_get_int)
    qed
    from 1 2 3 4 5 show ?thesis by blast
  qed
  from m nw t0 fin each show ?thesis by blast
qed

theorem nw_total_witness:
  "tb_reach '''' ''C'' 1 (- 1) (- 2) (0, 1, [], []) \<and>
   nw_matrix '''' ''C'' 1 (- 1) (- 2) = Inr [[0, - 2]] \<and>
   diag_cond '''' ''C'' 1 (- 1) [[0, - 2]] 0 1 = Inr False \<and>
   up_cond (- 2) [[0, - 2]] 0 1 = Inr False \<and>
   (0::int) < 1 \<and> py_get ''C'' (1 - 1) = Inr (''C'' ! nat (1 - 1)) \<and>
   traceback '''' ''C'' 1 (- 1) (- 2) [[0, - 2]] (0, 1, [], []) \<noteq> Inr ([], []) \<and>
   (\<exists>st. tb_step '''' ''C'' 1 (- 1) (- 2) [[0, - 2]] (0, 1, [], []) = Inr st \<and>
      tb_reach '''' ''C'' 1 (- 1) (- 2) st \<and>
      traceback '''' ''C'' 1 (- 1) (- 2) [[0, - 2]] (0, 1, [], []) =
        traceback '''' ''C'' 1 (- 1) (- 2) [[0, - 2]] st)"
proof -
  have r: "tb_reach '''' ''C'' 1 (- 1) (- 2) (0, 1, [], [])"
    using tb_reach.start [of "''''" "''C''" 1 "- 1" "- 2"] by simp
  have m: "nw_matrix '''' ''C'' 1 (- 1) (- 2) = Inr [[0, - 2]]"
    by code_simp
  have d: "diag_cond '''' ''C'' 1 (- 1) [[0, - 2]] 0 1 = Inr False"
    by (simp add: diag_cond_def)
  have u: "up_cond (- 2) [[0, - 2]] 0 1 = Inr False"
    by (simp add: up_cond_def)
  have c: "0 < (0::int) \<or> 0 < (1::int)" and n: "\<not> ((0::int) = 0 \<and> (1::int) = 0)"
    by simp_all
  from nw_total [of "''''" "''C''" 1 "- 1" "- 2"] obtain dp where
    dp: "nw_matrix '''' ''C'' 1 (- 1) (- 2) = Inr dp"
    and all: "\<forall>i j r1 r2. tb_reach '''' ''C'' 1 (- 1) (- 2) (i, j, r1, r2) \<longrightarrow>
      ((\<not> (0 < i \<or> 0 < j)) = (i = 0 \<and> j = 0)) \<and>
      ((traceback '''' ''C'' 1 (- 1) (- 2) dp (i, j, r1, r2) = Inr (r1, r2)) = (i = 0 \<and> j = 0)) \<and>
      (0 < i \<or> 0 < j \<longrightarrow>
         (\<exists>st. tb_step '''' ''C'' 1 (- 1) (- 2) dp (i, j, r1, r2) = Inr st \<and>
            tb_reach '''' ''C'' 1 (- 1) (- 2) st \<and>
            traceback '''' ''C'' 1 (- 1) (- 2) dp (i, j, r1, r2) =
              traceback '''' ''C'' 1 (- 1) (- 2) dp st)) \<and>
      (0 < i \<or> 0 < j \<longrightarrow> diag_cond '''' ''C'' 1 (- 1) dp i j = Inr False \<longrightarrow>
         up_cond (- 2) dp i j = Inr False \<longrightarrow>
         0 < j \<and> py_get ''C'' (j - 1) = Inr (''C'' ! nat (j - 1)))"
    by blast
  from dp m have e: "dp = [[0, - 2]]" by simp
  from all [rule_format, OF r]
  have s2: "(traceback '''' ''C'' 1 (- 1) (- 2) dp (0, 1, [], []) = Inr ([], [])) =
      ((0::int) = 0 \<and> (1::int) = 0)"
    and s3: "0 < (0::int) \<or> 0 < (1::int) \<longrightarrow>
      (\<exists>st. tb_step '''' ''C'' 1 (- 1) (- 2) dp (0, 1, [], []) = Inr st \<and>
         tb_reach '''' ''C'' 1 (- 1) (- 2) st \<and>
         traceback '''' ''C'' 1 (- 1) (- 2) dp (0, 1, [], []) =
           traceback '''' ''C'' 1 (- 1) (- 2) dp st)"
    and s4: "0 < (0::int) \<or> 0 < (1::int) \<longrightarrow>
      diag_cond '''' ''C'' 1 (- 1) dp 0 1 = Inr False \<longrightarrow>
      up_cond (- 2) dp 0 1 = Inr False \<longrightarrow>
      0 < (1::int) \<and> py_get ''C'' (1 - 1) = Inr (''C'' ! nat (1 - 1))"
    by blast+
  from s2 n have t2: "traceback '''' ''C'' 1 (- 1) (- 2) [[0, - 2]] (0, 1, [], []) \<noteq> Inr ([], [])"
    unfolding e by blast
  from s3 [THEN mp, OF c]
  have t3: "\<exists>st. tb_step '''' ''C'' 1 (- 1) (- 2) [[0, - 2]] (0, 1, [], []) = Inr st \<and>
      tb_reach '''' ''C'' 1 (- 1) (- 2) st \<and>
      traceback '''' ''C'' 1 (- 1) (- 2) [[0, - 2]] (0, 1, [], []) =
        traceback '''' ''C'' 1 (- 1) (- 2) [[0, - 2]] st"
    unfolding e .
  from s4 [unfolded e, THEN mp, OF c, THEN mp, OF d, THEN mp, OF u]
  have t4: "0 < (1::int) \<and> py_get ''C'' (1 - 1) = Inr (''C'' ! nat (1 - 1))" .
  from r m d u t4 t2 t3 show ?thesis
    by (intro conjI) (erule conjunct1 conjunct2 | assumption)+
qed

text \<open>
  Claim C2, as stated: for every list of fewer than two sequences \<open>msa\<close> raises
  \<open>InsufficientInputError\<close> and returns no result. \<open>msa\<close> makes no such check: for
  a single sequence the loop body never runs and the call returns.
\<close>

theorem msa_singleton_counterexample:
  "msa [''A''] 1 (- 1) (- 2) = Inr (0, [''A''])"
  by (simp add: msa_def msa_loop_def py_get_def py_max_def ljust_def final_score_of_def)

text \<open>
  Claim C2, amended: \<open>msa\<close> does not check the number of sequences. For a list of
  one sequence \<open>s\<close> it raises nothing and returns the score 0 with the block
  \<open>[s]\<close>; for the empty list it raises \<open>IndexError\<close> at \<open>sequences[0]\<close> and returns
  no result.
\<close>

theorem msa_fewer_than_two:
  "msa [s] match mismatch gap = Inr (0, [s]) \<and> msa [] match mismatch gap = Inl IndexError"
  by (simp add: msa_singleton msa_empty)

text \<open>
  Claim C3: after each iteration of the progressive loop in \<open>msa\<close> all rows of
  the block have identical length. The code breaks it. On
  \<open>["AGT", "ACGT", "AGT"]\<close> the first iteration gives \<open>A-GT\<close> over \<open>ACGT\<close>; the
  second aligns row 0, \<open>A-GT\<close>, with \<open>AGT\<close> and puts no new gap into it, yet the
  gap row 0 already had is propagated into row 1 once more. The block after
  the second iteration has rows of length 4, 5 and 4, and the final padding
  returns \<open>A-GT-\<close>, \<open>A-CGT\<close>, \<open>A-GT-\<close>, whose columns no longer correspond.
\<close>

theorem msa_rows_differ:
  "msa_loop [''AGT'', ''ACGT'', ''AGT''] 1 (- 1) (- 2) = Inr [''A-GT'', ''A-CGT'', ''A-GT''] \<and>
   map length [''A-GT'', ''A-CGT'', ''A-GT''] = [4, 5, 4] \<and>
   msa [''AGT'', ''ACGT'', ''AGT''] 1 (- 1) (- 2) = Inr (5, [''A-GT-'', ''A-CGT'', ''A-GT-''])"
  by code_simp

text \<open>
  Claim C4: gap propagation inserts a gap into the other rows exactly where
  the aligned first row has a gap that is new relative to the current row 0,
  so that each row gains the number of newly introduced gaps. The code breaks
  it. In the second iteration of \<open>msa\<close> on \<open>["AGT", "ACGT", "AGT"]\<close> the aligned
  first row returned by \<open>needleman_wunsch\<close> is \<open>A-GT\<close>, which is row 0 unchanged:
  no gap is new. \<open>propagate_gaps_to_msa\<close> still inserts a gap into row 1 at the
  position of the old one.
\<close>

theorem propagate_old_gap:
  "needleman_wunsch ''A-GT'' ''AGT'' 1 (- 1) (- 2) = Inr (1, ''A-GT'', ''A-GT'') \<and>
   propagate_gaps_to_msa [''A-GT'', ''ACGT''] ''A-GT'' 0 = Inr [''A-GT'', ''A-CGT'']"
  by code_simp

end
